theory Spec2Isabelle
  imports Main "HOL-Library.Product_Lexorder"
begin

section \<open>Python values, exceptions and clocks\<close>

text \<open>
  The cache classes are dynamically typed.  Two kinds of value reach \<open>update\<close> in this
  repository: a langchain \<open>Generation\<close> (the annotated type of
  \<open>LRUInMemoryCache.update\<close>; only its \<open>text\<close> attribute is ever read or built) and a
  plain \<open>str\<close> (what \<open>LRUSQLiteCache\<close> stores and what \<open>CacheManager.health_check\<close>
  passes).  Reading \<open>.text\<close> of a \<open>str\<close> raises \<open>AttributeError\<close>.
\<close>

datatype pyval = Generation string | PyStr string

datatype exn =
    AttributeError string
  | KeyError string
  | Sqlite3Error string
  | RuntimeError string
  | OSError string

text \<open>The attribute access \<open>return_val.text\<close>.\<close>

fun text_of :: "pyval \<Rightarrow> exn + string" where
  "text_of (Generation t) = Inr t"
| "text_of (PyStr s) = Inl (AttributeError ''str object has no attribute text'')"

text \<open>
  \<open>datetime.now()\<close> is an input of every operation that reads the clock.  A
  \<open>datetime\<close> is a count of microseconds; \<open>(a - b).total_seconds() > ttl\<close> is the exact
  comparison \<open>a - b > ttl * 10^6\<close> (the rounding of the float quotient is not modelled).
\<close>

type_synonym datetime = int

type_synonym key = "string \<times> string"

section \<open>collections.OrderedDict\<close>

text \<open>
  An \<open>OrderedDict\<close> is an association list, first inserted first.
  \<open>popitem(last=False)\<close> removes the head; \<open>move_to_end\<close> and a store under a new key
  append at the tail; a store under an existing key keeps the position.
\<close>

type_synonym 'v ordered_dict = "(key \<times> 'v) list"

definition od_contains :: "'v ordered_dict \<Rightarrow> key \<Rightarrow> bool" where
  "od_contains d k = (map_of d k \<noteq> None)"

definition od_getitem :: "'v ordered_dict \<Rightarrow> key \<Rightarrow> 'v option" where
  "od_getitem d k = map_of d k"

definition od_delitem :: "'v ordered_dict \<Rightarrow> key \<Rightarrow> 'v ordered_dict" where
  "od_delitem d k = filter (\<lambda>p. fst p \<noteq> k) d"

definition od_move_to_end :: "'v ordered_dict \<Rightarrow> key \<Rightarrow> 'v ordered_dict" where
  "od_move_to_end d k =
     (case map_of d k of
        None \<Rightarrow> d
      | Some v \<Rightarrow> filter (\<lambda>p. fst p \<noteq> k) d @ [(k, v)])"

definition od_setitem :: "'v ordered_dict \<Rightarrow> key \<Rightarrow> 'v \<Rightarrow> 'v ordered_dict" where
  "od_setitem d k v =
     (if od_contains d k
      then map (\<lambda>p. if fst p = k then (k, v) else p) d
      else d @ [(k, v)])"

definition od_popitem_first :: "'v ordered_dict \<Rightarrow> ((key \<times> 'v) \<times> 'v ordered_dict) option" where
  "od_popitem_first d = (case d of [] \<Rightarrow> None | p # rest \<Rightarrow> Some (p, rest))"

section \<open>LRUInMemoryCache (cache\_module/lru\_memory\_cache.py)\<close>

record entry =
  response :: string
  created_at :: datetime
  last_accessed :: datetime

record cache_stats =
  hits :: int
  misses :: int
  evictions :: int
  expired :: int

record mem_cache =
  cache :: "entry ordered_dict"
  max_size :: int
  ttl :: "int option"
  stats :: cache_stats

definition reset_stats :: cache_stats where
  "reset_stats = \<lparr>hits = 0, misses = 0, evictions = 0, expired = 0\<rparr>"

definition LRUInMemoryCache_init :: "int \<Rightarrow> int option \<Rightarrow> mem_cache" where
  "LRUInMemoryCache_init m t =
     \<lparr>cache = [], max_size = max m 1, ttl = t, stats = reset_stats\<rparr>"

definition generate_key :: "string \<Rightarrow> string \<Rightarrow> key" where
  "generate_key prompt llm_string = (prompt, llm_string)"

definition is_expired :: "mem_cache \<Rightarrow> entry \<Rightarrow> datetime \<Rightarrow> bool" where
  "is_expired c e now =
     (case ttl c of
        None \<Rightarrow> False
      | Some T \<Rightarrow> now - last_accessed e > T * 1000000)"

text \<open>
  \<open>lookup\<close> reads the clock twice: in \<open>_is_expired\<close> (\<open>now_check\<close>) and when it
  refreshes \<open>last_accessed\<close> (\<open>now_touch\<close>).  The entry is the dict object stored in
  the \<open>OrderedDict\<close>, so the assignment to \<open>entry['last_accessed']\<close> changes the stored
  entry.
\<close>

definition lookup :: "mem_cache \<Rightarrow> string \<Rightarrow> string \<Rightarrow> datetime \<Rightarrow> datetime
    \<Rightarrow> pyval option \<times> mem_cache" where
  "lookup c prompt llm_string now_check now_touch =
     (let k = generate_key prompt llm_string in
      case od_getitem (cache c) k of
        None \<Rightarrow> (None, c\<lparr>stats := (stats c)\<lparr>misses := misses (stats c) + 1\<rparr>\<rparr>)
      | Some e \<Rightarrow>
          if is_expired c e now_check
          then (None,
                c\<lparr>cache := od_delitem (cache c) k,
                  stats := (stats c)\<lparr>expired := expired (stats c) + 1,
                                     misses := misses (stats c) + 1\<rparr>\<rparr>)
          else (Some (Generation (response e)),
                c\<lparr>cache := od_setitem (od_move_to_end (cache c) k) k
                             (e\<lparr>last_accessed := now_touch\<rparr>),
                  stats := (stats c)\<lparr>hits := hits (stats c) + 1\<rparr>\<rparr>))"

text \<open>
  One eviction: \<open>self._cache.popitem(last=False); self._stats['evictions'] += 1\<close>.
  \<open>popitem\<close> on an empty dict raises \<open>KeyError\<close>.
\<close>

definition evict_one :: "mem_cache \<Rightarrow> exn + mem_cache" where
  "evict_one c =
     (case od_popitem_first (cache c) of
        None \<Rightarrow> Inl (KeyError ''dictionary is empty'')
      | Some (p, rest) \<Rightarrow>
          Inr (c\<lparr>cache := rest,
                 stats := (stats c)\<lparr>evictions := evictions (stats c) + 1\<rparr>\<rparr>))"

text \<open>
  The loop of \<open>update\<close>: \<open>while len(self._cache) >= self.max_size\<close>.  A raised
  exception leaves the object as it was mutated so far, so every result carries the
  state.
\<close>

function evict_while_full :: "mem_cache \<Rightarrow> (exn + unit) \<times> mem_cache" where
  "evict_while_full c =
     (if max_size c \<le> int (length (cache c))
      then (case evict_one c of
              Inl e \<Rightarrow> (Inl e, c)
            | Inr c' \<Rightarrow> evict_while_full c')
      else (Inr (), c))"
  by pat_completeness auto
termination
  by (relation "measure (\<lambda>c. length (cache c))")
     (auto simp: evict_one_def od_popitem_first_def split: list.splits)

text \<open>The loop of \<open>resize\<close>: \<open>while len(self._cache) > self.max_size\<close>.\<close>

function evict_while_over :: "mem_cache \<Rightarrow> (exn + unit) \<times> mem_cache" where
  "evict_while_over c =
     (if max_size c < int (length (cache c))
      then (case evict_one c of
              Inl e \<Rightarrow> (Inl e, c)
            | Inr c' \<Rightarrow> evict_while_over c')
      else (Inr (), c))"
  by pat_completeness auto
termination
  by (relation "measure (\<lambda>c. length (cache c))")
     (auto simp: evict_one_def od_popitem_first_def split: list.splits)

definition update :: "mem_cache \<Rightarrow> string \<Rightarrow> string \<Rightarrow> pyval \<Rightarrow> datetime
    \<Rightarrow> (exn + unit) \<times> mem_cache" where
  "update c prompt llm_string return_val now =
     (let k = generate_key prompt llm_string;
          c1 = (if od_contains (cache c) k
                then c\<lparr>cache := od_delitem (cache c) k\<rparr> else c)
      in case evict_while_full c1 of
           (Inl e, c2) \<Rightarrow> (Inl e, c2)
         | (Inr u, c2) \<Rightarrow>
             (case text_of return_val of
                Inl e \<Rightarrow> (Inl e, c2)
              | Inr t \<Rightarrow>
                  (Inr (),
                   c2\<lparr>cache := od_setitem (cache c2) k
                        \<lparr>response = t, created_at = now, last_accessed = now\<rparr>\<rparr>)))"

definition clear :: "mem_cache \<Rightarrow> mem_cache" where
  "clear c = c\<lparr>cache := [], stats := reset_stats\<rparr>"

definition resize :: "mem_cache \<Rightarrow> int \<Rightarrow> (exn + unit) \<times> mem_cache" where
  "resize c new_size = evict_while_over (c\<lparr>max_size := max new_size 1\<rparr>)"

section \<open>The storage engine under LRUSQLiteCache\<close>

text \<open>
  \<open>CURRENT_TIMESTAMP\<close> has a resolution of one second: a timestamp is a count of
  seconds, read once per statement and passed in.  The file at \<open>database_path\<close> is a
  \<open>database\<close>: the rows of table \<open>lru_cache\<close> and, when the trigger
  \<open>trigger_lru_eviction\<close> exists, the bound that was written into its text when it was
  created.  A file that does not exist yet is \<open>fresh_database\<close>
  (\<open>CREATE TABLE IF NOT EXISTS\<close> then yields the empty table).
\<close>

type_synonym timestamp = int

record row =
  row_id :: int
  prompt :: string
  llm_string :: string
  row_response :: string
  row_created_at :: timestamp
  row_last_accessed :: timestamp

record database =
  lru_cache :: "row list"
  trigger_lru_eviction :: "int option"

definition fresh_database :: database where
  "fresh_database = \<lparr>lru_cache = [], trigger_lru_eviction = None\<rparr>"

text \<open>
  Any statement may fail inside the engine.  An \<open>engine\<close> says, for the i-th statement
  an operation runs, whether it raises \<open>sqlite3.Error\<close> and with which message.
\<close>

type_synonym engine = "nat \<Rightarrow> string option"

definition no_faults :: engine where
  "no_faults = (\<lambda>i. None)"

definition execute :: "engine \<Rightarrow> nat \<Rightarrow> exn + unit" where
  "execute eng i = (case eng i of None \<Rightarrow> Inr () | Some m \<Rightarrow> Inl (Sqlite3Error m))"

text \<open>The first failure among the statements a transaction runs in sequence.\<close>

fun first_fault :: "engine \<Rightarrow> nat list \<Rightarrow> string option" where
  "first_fault eng [] = None"
| "first_fault eng (i # js) = (case eng i of Some m \<Rightarrow> Some m | None \<Rightarrow> first_fault eng js)"

definition matches :: "string \<Rightarrow> string \<Rightarrow> row \<Rightarrow> bool" where
  "matches p l r = (prompt r = p \<and> llm_string r = l)"

text \<open>
  \<open>SELECT id FROM lru_cache ORDER BY last_accessed ASC\<close>: rows of equal
  \<open>last_accessed\<close> come in the order of the index \<open>idx_cache_access\<close>, by row id.
\<close>

definition access_order :: "row list \<Rightarrow> row list" where
  "access_order rs = sort_key (\<lambda>r. (row_last_accessed r, row_id r)) rs"

text \<open>
  The body of \<open>trigger_lru_eviction\<close>, with the bound of its \<open>WHEN\<close> clause and its
  \<open>LIMIT\<close>.
\<close>

definition trigger_fire :: "int \<Rightarrow> row list \<Rightarrow> row list" where
  "trigger_fire bound rs =
     (if bound < int (length rs)
      then (let victims = map row_id (take (nat (int (length rs) - bound)) (access_order rs))
            in filter (\<lambda>r. row_id r \<notin> set victims) rs)
      else rs)"

text \<open>
  The row id of an \<open>INTEGER PRIMARY KEY\<close> column left out of an insert: one more than
  the largest id in the table, 1 for an empty table.  It is chosen before the row in
  conflict is deleted.
\<close>

definition new_rowid :: "row list \<Rightarrow> int" where
  "new_rowid rs =
     (case rs of
        [] \<Rightarrow> 1
      | r # rest \<Rightarrow> fold (\<lambda>x m. max (row_id x) m) rest (row_id r) + 1)"

text \<open>
  \<open>INSERT OR REPLACE INTO lru_cache (prompt, llm_string, response, last_accessed)
  VALUES (?, ?, ?, CURRENT_TIMESTAMP)\<close>: the row in conflict on
  \<open>UNIQUE(prompt, llm_string)\<close> is deleted, the new row is inserted
  (\<open>created_at\<close> takes its default), and the \<open>AFTER INSERT\<close> trigger runs in the same
  statement.
\<close>

definition insert_or_replace :: "database \<Rightarrow> string \<Rightarrow> string \<Rightarrow> string \<Rightarrow> timestamp
    \<Rightarrow> database" where
  "insert_or_replace d p l r now =
     (let rs = filter (\<lambda>x. \<not> matches p l x) (lru_cache d) @
               [\<lparr>row_id = new_rowid (lru_cache d), prompt = p, llm_string = l,
                 row_response = r, row_created_at = now, row_last_accessed = now\<rparr>]
      in d\<lparr>lru_cache :=
             (case trigger_lru_eviction d of
                None \<Rightarrow> rs
              | Some b \<Rightarrow> trigger_fire b rs)\<rparr>)"

definition touch_rows :: "string \<Rightarrow> string \<Rightarrow> timestamp \<Rightarrow> row list \<Rightarrow> row list" where
  "touch_rows p l now rs =
     map (\<lambda>r. if matches p l r then r\<lparr>row_last_accessed := now\<rparr> else r) rs"

section \<open>LRUSQLiteCache (cache\_module/lru\_sqlite\_cache.py)\<close>

datatype failed_operation = Lookup_failed | Update_failed | Clear_failed

record sqlite_cache =
  sq_max_size :: int
  conn :: database
  printed :: "(failed_operation \<times> string) list"

definition handle_error :: "sqlite_cache \<Rightarrow> failed_operation \<Rightarrow> string \<Rightarrow> sqlite_cache" where
  "handle_error c operation m = c\<lparr>printed := printed c @ [(operation, m)]\<rparr>"

text \<open>
  \<open>_setup_database\<close>; statements 1 to 5 of the constructor.  \<open>CREATE TRIGGER IF NOT
  EXISTS\<close> leaves a trigger that exists as it is.  A failure rolls the transaction back
  and is raised again as \<open>RuntimeError\<close>.
\<close>

definition setup_database :: "database \<Rightarrow> int \<Rightarrow> engine \<Rightarrow> exn + database" where
  "setup_database d m eng =
     (case first_fault eng [1, 2, 3, 4, 5] of
        Some e \<Rightarrow> Inl (RuntimeError e)
      | None \<Rightarrow>
          Inr (d\<lparr>trigger_lru_eviction :=
                   (case trigger_lru_eviction d of
                      None \<Rightarrow> Some m
                    | Some b \<Rightarrow> Some b)\<rparr>))"

text \<open>
  The constructor.  \<open>parent\<close> is the outcome of \<open>super().__init__\<close> (langchain's
  \<open>SQLiteCache\<close>, not code of this repository); statement 0 is \<open>sqlite3.connect\<close>,
  outside any \<open>try\<close>.
\<close>

definition LRUSQLiteCache_init :: "exn option \<Rightarrow> database \<Rightarrow> int \<Rightarrow> engine
    \<Rightarrow> exn + sqlite_cache" where
  "LRUSQLiteCache_init parent d m eng =
     (case parent of
        Some e \<Rightarrow> Inl e
      | None \<Rightarrow>
          (case execute eng 0 of
             Inl e \<Rightarrow> Inl e
           | Inr u \<Rightarrow>
               (case setup_database d (max m 1) eng of
                  Inl e \<Rightarrow> Inl e
                | Inr d' \<Rightarrow> Inr \<lparr>sq_max_size = max m 1, conn = d', printed = []\<rparr>)))"

text \<open>
  Inside \<open>with self.conn\<close> an exception rolls back, so a body either returns the new
  database or raises and leaves the database as it was.  Statements of \<open>lookup\<close>:
  0 the \<open>SELECT\<close>, 1 the \<open>UPDATE\<close>, 2 the commit.
\<close>

definition sq_lookup_body :: "database \<Rightarrow> string \<Rightarrow> string \<Rightarrow> timestamp \<Rightarrow> engine
    \<Rightarrow> exn + (string option \<times> database)" where
  "sq_lookup_body d p l now eng =
     (case execute eng 0 of
        Inl e \<Rightarrow> Inl e
      | Inr u \<Rightarrow>
          (case List.find (matches p l) (lru_cache d) of
             None \<Rightarrow> Inr (None, d)
           | Some r \<Rightarrow>
               (case execute eng 1 of
                  Inl e \<Rightarrow> Inl e
                | Inr u \<Rightarrow>
                    (case execute eng 2 of
                       Inl e \<Rightarrow> Inl e
                     | Inr u \<Rightarrow>
                         Inr (Some (row_response r),
                              d\<lparr>lru_cache := touch_rows p l now (lru_cache d)\<rparr>)))))"

definition sq_lookup :: "sqlite_cache \<Rightarrow> string \<Rightarrow> string \<Rightarrow> timestamp \<Rightarrow> engine
    \<Rightarrow> (exn + string option) \<times> sqlite_cache" where
  "sq_lookup c p l now eng =
     (case sq_lookup_body (conn c) p l now eng of
        Inr (res, d) \<Rightarrow> (Inr res, c\<lparr>conn := d\<rparr>)
      | Inl (Sqlite3Error m) \<Rightarrow> (Inr None, handle_error c Lookup_failed m)
      | Inl e \<Rightarrow> (Inl e, c))"

text \<open>Statements of \<open>update\<close>: 0 the \<open>INSERT OR REPLACE\<close>, 1 the commit.\<close>

definition sq_update_body :: "database \<Rightarrow> string \<Rightarrow> string \<Rightarrow> string \<Rightarrow> timestamp \<Rightarrow> engine
    \<Rightarrow> exn + database" where
  "sq_update_body d p l r now eng =
     (case execute eng 0 of
        Inl e \<Rightarrow> Inl e
      | Inr u \<Rightarrow>
          (case execute eng 1 of
             Inl e \<Rightarrow> Inl e
           | Inr u \<Rightarrow> Inr (insert_or_replace d p l r now)))"

definition sq_update :: "sqlite_cache \<Rightarrow> string \<Rightarrow> string \<Rightarrow> string \<Rightarrow> timestamp \<Rightarrow> engine
    \<Rightarrow> (exn + unit) \<times> sqlite_cache" where
  "sq_update c p l r now eng =
     (case sq_update_body (conn c) p l r now eng of
        Inr d \<Rightarrow> (Inr (), c\<lparr>conn := d\<rparr>)
      | Inl (Sqlite3Error m) \<Rightarrow> (Inr (), handle_error c Update_failed m)
      | Inl e \<Rightarrow> (Inl e, c))"

text \<open>Statements of \<open>clear\<close>: 0 the \<open>DELETE\<close>, 1 the commit.\<close>

definition sq_clear_body :: "database \<Rightarrow> engine \<Rightarrow> exn + database" where
  "sq_clear_body d eng =
     (case execute eng 0 of
        Inl e \<Rightarrow> Inl e
      | Inr u \<Rightarrow>
          (case execute eng 1 of
             Inl e \<Rightarrow> Inl e
           | Inr u \<Rightarrow> Inr (d\<lparr>lru_cache := []\<rparr>)))"

definition sq_clear :: "sqlite_cache \<Rightarrow> engine \<Rightarrow> (exn + unit) \<times> sqlite_cache" where
  "sq_clear c eng =
     (case sq_clear_body (conn c) eng of
        Inr d \<Rightarrow> (Inr (), c\<lparr>conn := d\<rparr>)
      | Inl (Sqlite3Error m) \<Rightarrow> (Inr (), handle_error c Clear_failed m)
      | Inl e \<Rightarrow> (Inl e, c))"







section \<open>Config (config\_module/config.py) and CacheManager (cache\_module/cache\_manager.py)\<close>

record config =
  ENABLE_CACHE :: bool
  CACHE_TYPE :: string
  CACHE_PATH :: string
  CACHE_MAX_SIZE :: int
  CACHE_TTL :: "int option"

datatype backend = Memory mem_cache | Sqlite sqlite_cache

text \<open>
  The texts of the log records and of the result messages are Chinese; each is a
  constructor here, carrying the values its f-string interpolates.  \<open>No_message\<close>
  is the empty string the result dicts start with.
\<close>

datatype message =
    No_message
  | Cache_disabled
  | Init_succeeded string int "int option"
  | Init_failed int exn
  | Sqlite_cleared
  | Sqlite_file_missing
  | Memory_cleared
  | Unknown_or_uninitialized
  | Clear_cache_failed exn
  | Sqlite_connection_ok
  | Memory_ok
  | Memory_abnormal
  | Unknown_cache_type
  | Health_check_failed exn

datatype level = INFO | WARNING | ERROR

text \<open>
  The manager's fields together with the globals its methods read and write:
  \<open>langchain.llm_cache\<close> (\<open>None\<close> until a backend is installed), the records written
  to the logger and the paths that exist in the file system.
\<close>

record manager =
  cache_initialized :: bool
  init_attempts :: int
  last_error :: "exn option"
  llm_cache :: "backend option"
  logger :: "(level \<times> message) list"
  files :: "string set"

text \<open>
  What the operating system and the engine answer during one call of a manager method:
  whether \<open>mkdir\<close> and \<open>unlink\<close> raise \<open>OSError\<close>, the outcome of the inherited
  constructor, the database found at \<open>CACHE_PATH\<close>, the statements that fail and the
  successive readings of the clock.
\<close>

record environment =
  mkdir_error :: "string option"
  unlink_error :: "string option"
  parent_init :: "exn option"
  stored :: database
  sql :: engine
  clock :: "nat \<Rightarrow> int"

definition log :: "level \<Rightarrow> message \<Rightarrow> manager \<Rightarrow> manager" where
  "log lv msg m = m\<lparr>logger := logger m @ [(lv, msg)]\<rparr>"

definition setup_sqlite_cache :: "config \<Rightarrow> environment \<Rightarrow> manager \<Rightarrow> exn + manager" where
  "setup_sqlite_cache cfg env m =
     (case mkdir_error env of
        Some e \<Rightarrow> Inl (OSError e)
      | None \<Rightarrow>
          (case LRUSQLiteCache_init (parent_init env) (stored env) (CACHE_MAX_SIZE cfg) (sql env) of
             Inl e \<Rightarrow> Inl e
           | Inr c \<Rightarrow>
               Inr (m\<lparr>llm_cache := Some (Sqlite c),
                      files := insert (CACHE_PATH cfg) (files m)\<rparr>)))"

definition setup_memory_cache :: "config \<Rightarrow> manager \<Rightarrow> exn + manager" where
  "setup_memory_cache cfg m =
     Inr (m\<lparr>llm_cache := Some (Memory (LRUInMemoryCache_init (CACHE_MAX_SIZE cfg) (CACHE_TTL cfg)))\<rparr>)"

definition init_cache :: "config \<Rightarrow> environment \<Rightarrow> manager \<Rightarrow> manager" where
  "init_cache cfg env m =
     (if \<not> ENABLE_CACHE cfg
      then log INFO Cache_disabled (m\<lparr>llm_cache := None\<rparr>)
      else
        (let m1 = m\<lparr>init_attempts := init_attempts m + 1\<rparr> in
         case (if CACHE_TYPE cfg = ''sqlite''
               then setup_sqlite_cache cfg env m1
               else setup_memory_cache cfg m1) of
           Inr m2 \<Rightarrow>
             log INFO (Init_succeeded (CACHE_TYPE cfg) (CACHE_MAX_SIZE cfg) (CACHE_TTL cfg))
               (m2\<lparr>cache_initialized := True\<rparr>)
         | Inl e \<Rightarrow>
             (log ERROR (Init_failed (init_attempts m1) e) (m1\<lparr>last_error := Some e\<rparr>))
               \<lparr>llm_cache := None, cache_initialized := False\<rparr>))"

text \<open>
  \<open>__new__\<close> and \<open>_initialize\<close> for the first instance; \<open>w\<close> gives the globals as
  they are before.
\<close>

definition initialize :: "config \<Rightarrow> environment \<Rightarrow> manager \<Rightarrow> manager" where
  "initialize cfg env w =
     init_cache cfg env (w\<lparr>cache_initialized := False, init_attempts := 0, last_error := None\<rparr>)"

record clear_result =
  success :: bool
  clear_message :: message
  clear_cache_type :: string

text \<open>
  \<open>clear_cache\<close>: the body of the \<open>try\<close>, which may raise, and the method, whose
  \<open>except Exception\<close> catches every exception of the body.  \<open>hasattr(langchain.llm_cache,
  'clear')\<close> holds for both cache classes and fails for \<open>None\<close>.
\<close>

definition clear_cache_body :: "config \<Rightarrow> environment \<Rightarrow> manager \<Rightarrow> clear_result
    \<Rightarrow> exn + (clear_result \<times> manager)" where
  "clear_cache_body cfg env m res =
     (if CACHE_TYPE cfg = ''sqlite''
      then
        (if CACHE_PATH cfg \<in> files m
         then (case unlink_error env of
                 Some e \<Rightarrow> Inl (OSError e)
               | None \<Rightarrow>
                   Inr (res\<lparr>success := True, clear_message := Sqlite_cleared\<rparr>,
                        log INFO Sqlite_cleared (m\<lparr>files := files m - {CACHE_PATH cfg}\<rparr>)))
         else Inr (res\<lparr>clear_message := Sqlite_file_missing\<rparr>,
                   log WARNING Sqlite_file_missing m))
      else
        (case llm_cache m of
           Some (Memory c) \<Rightarrow>
             Inr (res\<lparr>success := True, clear_message := Memory_cleared\<rparr>,
                  log INFO Memory_cleared (m\<lparr>llm_cache := Some (Memory (clear c))\<rparr>))
         | Some (Sqlite c) \<Rightarrow>
             (case sq_clear c (sql env) of
                (Inl e, c') \<Rightarrow> Inl e
              | (Inr u, c') \<Rightarrow>
                  Inr (res\<lparr>success := True, clear_message := Memory_cleared\<rparr>,
                       log INFO Memory_cleared (m\<lparr>llm_cache := Some (Sqlite c')\<rparr>)))
         | None \<Rightarrow>
             Inr (res\<lparr>clear_message := Unknown_or_uninitialized\<rparr>,
                  log ERROR Unknown_or_uninitialized m)))"

definition clear_cache :: "config \<Rightarrow> environment \<Rightarrow> manager \<Rightarrow> exn + (clear_result \<times> manager)" where
  "clear_cache cfg env m =
     (let res = \<lparr>success = False, clear_message = No_message, clear_cache_type = CACHE_TYPE cfg\<rparr>
      in case clear_cache_body cfg env m res of
           Inr out \<Rightarrow> Inr out
         | Inl e \<Rightarrow>
             Inr (res\<lparr>clear_message := Clear_cache_failed e\<rparr>,
                  log ERROR (Clear_cache_failed e) m))"




section \<open>Notions used to state the properties\<close>

text \<open>
  The entry \<open>update\<close> stores, and the number of turns its loop takes: the entries
  left once the key is deleted, plus one, minus \<open>max_size\<close>.
\<close>

definition new_entry :: "string \<Rightarrow> datetime \<Rightarrow> entry" where
  "new_entry t now = \<lparr>response = t, created_at = now, last_accessed = now\<rparr>"

definition evictions_needed :: "mem_cache \<Rightarrow> key \<Rightarrow> nat" where
  "evictions_needed c k = nat (int (length (od_delitem (cache c) k)) + 1 - max_size c)"

text \<open>
  A sequence of \<open>update\<close> calls, each with its arguments and the clock reading it
  takes; the run stops at the first call that raises.  \<open>clock_monotone\<close>: the
  \<open>last_accessed\<close> stamps of the entries, in dict order, followed by the readings of
  the calls, never decrease.
\<close>

type_synonym call = "string \<times> string \<times> pyval \<times> datetime"

fun updates :: "mem_cache \<Rightarrow> call list \<Rightarrow> (exn + unit) \<times> mem_cache" where
  "updates c [] = (Inr (), c)"
| "updates c ((p, l, v, now) # calls) =
     (case update c p l v now of
        (Inl e, c') \<Rightarrow> (Inl e, c')
      | (Inr u, c') \<Rightarrow> updates c' calls)"

definition accessed :: "key \<times> entry \<Rightarrow> datetime" where
  "accessed p = last_accessed (snd p)"

definition call_time :: "call \<Rightarrow> datetime" where
  "call_time x = (case x of (p, l, v, now) \<Rightarrow> now)"

definition is_generation :: "call \<Rightarrow> bool" where
  "is_generation x = (case x of (p, l, Generation t, now) \<Rightarrow> True | (p, l, PyStr s, now) \<Rightarrow> False)"

definition clock_monotone :: "mem_cache \<Rightarrow> call list \<Rightarrow> bool" where
  "clock_monotone c calls = sorted (map accessed (cache c) @ map call_time calls)"




definition default_config :: config where
  "default_config =
     \<lparr>ENABLE_CACHE = True, CACHE_TYPE = ''sqlite'', CACHE_PATH = ''.rag_cache.db'',
      CACHE_MAX_SIZE = 1000, CACHE_TTL = Some 3600\<rparr>"

definition quiet_environment :: environment where
  "quiet_environment =
     \<lparr>mkdir_error = None, unlink_error = None, parent_init = None,
      stored = fresh_database, sql = no_faults, clock = (\<lambda>i. int i)\<rparr>"

definition before_first_access :: manager where
  "before_first_access =
     \<lparr>cache_initialized = False, init_attempts = 0, last_error = None, llm_cache = None,
      logger = [], files = {}\<rparr>"




definition memory_manager :: manager where
  "memory_manager =
     initialize (default_config\<lparr>CACHE_TYPE := ''memory''\<rparr>) quiet_environment before_first_access"

definition three_calls :: "call list" where
  "three_calls =
     [(''k1'', ''m'', Generation ''a'', 1),
      (''k2'', ''m'', Generation ''b'', 2),
      (''k3'', ''m'', Generation ''c'', 3)]"

definition opened_with_2 :: sqlite_cache where
  "opened_with_2 =
     \<lparr>sq_max_size = 2,
      conn = \<lparr>lru_cache = [], trigger_lru_eviction = Some 2\<rparr>,
      printed = []\<rparr>"

definition two_rows :: database where
  "two_rows =
     \<lparr>lru_cache =
        [\<lparr>row_id = 1, prompt = ''k1'', llm_string = ''m'', row_response = ''a'',
          row_created_at = 1, row_last_accessed = 1\<rparr>,
         \<lparr>row_id = 2, prompt = ''k2'', llm_string = ''m'', row_response = ''b'',
          row_created_at = 2, row_last_accessed = 2\<rparr>],
      trigger_lru_eviction = Some 2\<rparr>"

definition reopened_with_1 :: sqlite_cache where
  "reopened_with_1 = \<lparr>sq_max_size = 1, conn = two_rows, printed = []\<rparr>"

definition one_entry_cache :: mem_cache where
  "one_entry_cache =
     \<lparr>cache = [((''q'', ''m''), new_entry ''a'' 0)], max_size = 1, ttl = Some 1,
      stats = reset_stats\<rparr>"

section \<open>The eviction loops in closed form\<close>

declare evict_while_full.simps [simp del]
declare evict_while_over.simps [simp del]

text \<open>The state after \<open>n\<close> evictions in a row.\<close>

definition evicted :: "mem_cache \<Rightarrow> nat \<Rightarrow> mem_cache" where
  "evicted c n = c\<lparr>cache := drop n (cache c),
                    stats := (stats c)\<lparr>evictions := evictions (stats c) + int n\<rparr>\<rparr>"

lemma evicted_0: "evicted c 0 = c"
  by (simp add: evicted_def)

lemma evict_one_nonempty:
  "cache c \<noteq> [] \<Longrightarrow> evict_one c = Inr (evicted c 1)"
  by (cases "cache c") (simp_all add: evict_one_def od_popitem_first_def evicted_def drop_Suc)

lemma evicted_evicted: "evicted (evicted c m) n = evicted c (m + n)"
  by (simp add: evicted_def add.commute add.left_commute)

lemma evict_while_full_eq:
  "1 \<le> max_size c \<Longrightarrow>
   evict_while_full c = (Inr (), evicted c (nat (int (length (cache c)) + 1 - max_size c)))"
proof (induction c rule: evict_while_full.induct)
  case (1 c)
  show ?case
  proof (cases "max_size c \<le> int (length (cache c))")
    case False
    then show ?thesis
      by (subst evict_while_full.simps) (simp add: evicted_0)
  next
    case True
    with "1.prems" have ne: "cache c \<noteq> []" by auto
    have e1: "evict_one c = Inr (evicted c 1)" by (rule evict_one_nonempty [OF ne])
    have ms: "max_size (evicted c 1) = max_size c" by (simp add: evicted_def)
    have len: "length (cache (evicted c 1)) = length (cache c) - 1" by (simp add: evicted_def)
    have "evict_while_full c = evict_while_full (evicted c 1)"
      by (subst evict_while_full.simps) (simp add: True e1)
    also have "\<dots> = (Inr (), evicted (evicted c 1)
          (nat (int (length (cache (evicted c 1))) + 1 - max_size (evicted c 1))))"
      using "1.IH" [OF True e1] "1.prems" ms by simp
    also have "\<dots> = (Inr (), evicted c
          (1 + nat (int (length (cache (evicted c 1))) + 1 - max_size (evicted c 1))))"
      by (simp only: evicted_evicted)
    also have "1 + nat (int (length (cache (evicted c 1))) + 1 - max_size (evicted c 1))
          = nat (int (length (cache c)) + 1 - max_size c)"
      unfolding ms len using True ne "1.prems" by (cases "cache c") auto
    finally show ?thesis .
  qed
qed

lemma evict_while_over_eq:
  "0 \<le> max_size c \<Longrightarrow>
   evict_while_over c = (Inr (), evicted c (nat (int (length (cache c)) - max_size c)))"
proof (induction c rule: evict_while_over.induct)
  case (1 c)
  show ?case
  proof (cases "max_size c < int (length (cache c))")
    case False
    then show ?thesis
      by (subst evict_while_over.simps) (simp add: evicted_0)
  next
    case True
    with "1.prems" have ne: "cache c \<noteq> []" by auto
    have e1: "evict_one c = Inr (evicted c 1)" by (rule evict_one_nonempty [OF ne])
    have ms: "max_size (evicted c 1) = max_size c" by (simp add: evicted_def)
    have len: "length (cache (evicted c 1)) = length (cache c) - 1" by (simp add: evicted_def)
    have "evict_while_over c = evict_while_over (evicted c 1)"
      by (subst evict_while_over.simps) (simp add: True e1)
    also have "\<dots> = (Inr (), evicted (evicted c 1)
          (nat (int (length (cache (evicted c 1))) - max_size (evicted c 1))))"
      using "1.IH" [OF True e1] "1.prems" ms by simp
    also have "\<dots> = (Inr (), evicted c
          (1 + nat (int (length (cache (evicted c 1))) - max_size (evicted c 1))))"
      by (simp only: evicted_evicted)
    also have "1 + nat (int (length (cache (evicted c 1))) - max_size (evicted c 1))
          = nat (int (length (cache c)) - max_size c)"
      unfolding ms len using True ne "1.prems" by (cases "cache c") auto
    finally show ?thesis .
  qed
qed

lemma resize_eq:
  "resize c n = (Inr (), evicted (c\<lparr>max_size := max n 1\<rparr>)
                   (nat (int (length (cache c)) - max n 1)))"
  unfolding resize_def by (subst evict_while_over_eq) simp_all

lemma max_size_evicted: "max_size (evicted c k) = max_size c"
  by (simp add: evicted_def)

lemma cache_evicted: "cache (evicted c k) = drop k (cache c)"
  by (simp add: evicted_def)

lemma od_delitem_absent: "\<not> od_contains d k \<Longrightarrow> od_delitem d k = d"
  unfolding od_contains_def od_delitem_def
  by (induction d) (auto split: if_splits)

lemma od_contains_delitem: "\<not> od_contains (od_delitem d k) k"
  unfolding od_contains_def od_delitem_def
  by (induction d) auto

lemma od_contains_drop: "\<not> od_contains d k \<Longrightarrow> \<not> od_contains (drop n d) k"
  unfolding od_contains_def
  by (auto simp: map_of_eq_None_iff dest: in_set_dropD)

lemma od_setitem_absent: "\<not> od_contains d k \<Longrightarrow> od_setitem d k v = d @ [(k, v)]"
  by (simp add: od_setitem_def)

lemma update_eq:
  assumes "1 \<le> max_size c"
  shows "update c p l v now =
     (let k = generate_key p l;
          c2 = evicted (c\<lparr>cache := od_delitem (cache c) k\<rparr>) (evictions_needed c k)
      in case text_of v of
           Inl e \<Rightarrow> (Inl e, c2)
         | Inr t \<Rightarrow> (Inr (), c2\<lparr>cache := cache c2 @ [(k, new_entry t now)]\<rparr>))"
proof -
  let ?k = "generate_key p l"
  let ?c1 = "if od_contains (cache c) ?k then c\<lparr>cache := od_delitem (cache c) ?k\<rparr> else c"
  have c1: "?c1 = c\<lparr>cache := od_delitem (cache c) ?k\<rparr>"
    by (simp add: od_delitem_absent)
  have loop: "evict_while_full (c\<lparr>cache := od_delitem (cache c) ?k\<rparr>) =
      (Inr (), evicted (c\<lparr>cache := od_delitem (cache c) ?k\<rparr>) (evictions_needed c ?k))"
    using assms by (subst evict_while_full_eq) (simp_all add: evictions_needed_def)
  have absent: "\<not> od_contains (cache (evicted (c\<lparr>cache := od_delitem (cache c) ?k\<rparr>) (evictions_needed c ?k))) ?k"
    by (simp add: cache_evicted od_contains_drop od_contains_delitem)
  show ?thesis
    unfolding update_def Let_def c1 loop
    using absent by (simp add: od_setitem_absent new_entry_def split: sum.splits)
qed

lemma updates_snoc:
  "updates c (calls @ [(p, l, v, now)]) =
     (case updates c calls of
        (Inl e, c') \<Rightarrow> (Inl e, c')
      | (Inr u, c') \<Rightarrow> update c' p l v now)"
proof (induction calls arbitrary: c)
  case Nil
  show ?case by (simp split: prod.splits sum.splits)
next
  case (Cons x calls)
  obtain p' l' v' now' where x: "x = (p', l', v', now')" by (cases x) auto
  show ?case
    unfolding x by (simp add: Cons.IH split: prod.splits sum.splits)
qed

lemma update_generation:
  assumes "1 \<le> max_size c"
  shows "update c p l (Generation t) now =
     (Inr (), c\<lparr>cache := drop (evictions_needed c (generate_key p l))
                            (od_delitem (cache c) (generate_key p l)) @
                          [(generate_key p l, new_entry t now)],
               stats := (stats c)\<lparr>evictions := evictions (stats c) +
                            int (evictions_needed c (generate_key p l))\<rparr>\<rparr>)"
  unfolding update_eq [OF assms] by (simp add: evicted_def Let_def)

lemma evictions_needed_le:
  "1 \<le> max_size c \<Longrightarrow> evictions_needed c k \<le> length (od_delitem (cache c) k)"
  by (simp add: evictions_needed_def)

lemma sorted_after_update:
  assumes "sorted (map accessed d @ now # ts)"
  shows "sorted (map accessed (drop n (od_delitem d k)) @ accessed (k, new_entry t now) # ts)"
proof -
  have sub: "set (drop n (od_delitem d k)) \<subseteq> set d"
    by (auto simp: od_delitem_def dest: in_set_dropD)
  have "sorted (map accessed d)" using assms by (simp add: sorted_append)
  then have "sorted (map accessed (od_delitem d k))"
    unfolding od_delitem_def by (rule sorted_filter)
  then have "sorted (drop n (map accessed (od_delitem d k)))"
    by (rule sorted_wrt_drop)
  then have s1: "sorted (map accessed (drop n (od_delitem d k)))"
    by (simp add: drop_map)
  have acc: "accessed (k, new_entry t now) = now"
    by (simp add: accessed_def new_entry_def)
  show ?thesis
    using assms s1 sub by (auto simp: sorted_append acc)
qed

lemma step_invariant:
  assumes "1 \<le> max_size c" and "clock_monotone c ((p, l, Generation t, now) # calls)"
  shows "fst (update c p l (Generation t) now) = Inr ()"
    and "max_size (snd (update c p l (Generation t) now)) = max_size c"
    and "clock_monotone (snd (update c p l (Generation t) now)) calls"
  using assms(2) unfolding update_generation [OF assms(1)] clock_monotone_def
  by (simp_all add: call_time_def sorted_after_update)

lemma prefix_invariant:
  assumes "1 \<le> max_size c" and "list_all is_generation calls" and "clock_monotone c calls"
  shows "fst (updates c (take i calls)) = Inr () \<and>
         max_size (snd (updates c (take i calls))) = max_size c \<and>
         clock_monotone (snd (updates c (take i calls))) (drop i calls)"
  using assms
proof (induction i arbitrary: c calls)
  case 0
  then show ?case by simp
next
  case (Suc i)
  show ?case
  proof (cases calls)
    case Nil
    with Suc.prems show ?thesis by simp
  next
    case (Cons x rest)
    obtain p l v now where x: "x = (p, l, v, now)" by (cases x) auto
    from Suc.prems(2) Cons x obtain t where v: "v = Generation t"
      by (cases v) (auto simp: is_generation_def)
    note st = step_invariant [OF Suc.prems(1) Suc.prems(3) [unfolded Cons x v]]
    obtain c' where c': "update c p l (Generation t) now = (Inr (), c')"
      using st(1) by (cases "update c p l (Generation t) now") auto
    have ms: "1 \<le> max_size c'" using st(2) c' Suc.prems(1) by simp
    have gen: "list_all is_generation rest" using Suc.prems(2) Cons by simp
    have mono: "clock_monotone c' rest" using st(3) c' by simp
    from Suc.IH [OF ms gen mono] st(2) c'
    show ?thesis by (simp add: Cons x v)
  qed
qed

lemma sorted_head_least:
  assumes "sorted (map f d)" and "j < length d" and "e \<in> set (drop j d)"
  shows "f (d ! j) \<le> f e"
proof -
  from assms(3) obtain m where m: "m < length (drop j d)" "drop j d ! m = e"
    by (auto simp: in_set_conv_nth)
  then have e: "e = d ! (j + m)" and lt: "j + m < length d"
    using assms(2) by auto
  have "map f d ! j \<le> map f d ! (j + m)"
    using assms(1) lt by (intro sorted_nth_mono) simp_all
  then show ?thesis using e lt assms(2) by simp
qed

section \<open>Properties of the in-memory backend\<close>

text \<open>
  Claim C1.  Take a cache with \<open>max_size \<ge> 1\<close> (the constructor and \<open>resize\<close>
  clamp it), a sequence of \<open>update\<close> calls with \<open>Generation\<close> values and a clock
  that never goes back.  Then every call of the sequence returns, and for the call
  number \<open>i\<close>, from the state \<open>s\<close> before it to the state \<open>s'\<close> after it: the cache
  holds at most \<open>max_size\<close> entries; with \<open>d\<close> the entries of \<open>s\<close> less the key
  of the call, the call evicts the first \<open>n\<close> entries of \<open>d\<close> and no other (the
  counter grows by \<open>n\<close>, the new entry is appended); and the entry evicted at turn
  \<open>j\<close> of the loop has the least \<open>last_accessed\<close> of the entries present at that turn,
  being the first of them in dict order when several share that stamp.
\<close>

theorem update_sequence_lru:
  assumes "1 \<le> max_size c" and "list_all is_generation calls"
    and "clock_monotone c calls"
    and "i < length calls" and "calls ! i = (p, l, Generation t, now)"
  shows "let s = snd (updates c (take i calls));
             s' = snd (updates c (take (Suc i) calls));
             k = generate_key p l;
             d = od_delitem (cache s) k;
             n = evictions_needed s k
         in fst (updates c (take (Suc i) calls)) = Inr () \<and>
            int (length (cache s')) \<le> max_size s' \<and>
            cache s' = drop n d @ [(k, new_entry t now)] \<and>
            evictions (stats s') = evictions (stats s) + int n \<and>
            (\<forall>j<n. \<forall>e\<in>set (drop j d). accessed (d ! j) \<le> accessed e)"
proof -
  define s where "s = snd (updates c (take i calls))"
  define k where "k = generate_key p l"
  define d where "d = od_delitem (cache s) k"
  define n where "n = evictions_needed s k"
  note pre = prefix_invariant [OF assms(1,2,3), of i]
  from pre have ok: "updates c (take i calls) = (Inr (), s)"
    by (cases "updates c (take i calls)") (simp add: s_def)
  from pre assms(1) have ms: "1 \<le> max_size s" by (simp add: s_def)
  from pre have mono: "clock_monotone s (drop i calls)" by (simp add: s_def)
  have tk: "take (Suc i) calls = take i calls @ [(p, l, Generation t, now)]"
    using assms(4,5) by (simp add: take_Suc_conv_app_nth)
  have step: "updates c (take (Suc i) calls) =
      (Inr (), s\<lparr>cache := drop n d @ [(k, new_entry t now)],
                 stats := (stats s)\<lparr>evictions := evictions (stats s) + int n\<rparr>\<rparr>)"
    unfolding tk updates_snoc ok
    by (simp add: update_generation [OF ms] n_def d_def k_def)
  have nle: "n \<le> length d"
    unfolding n_def d_def by (rule evictions_needed_le [OF ms])
  have size: "int (length (drop n d @ [(k, new_entry t now)])) \<le> max_size s"
    using nle ms by (simp add: n_def d_def evictions_needed_def)
  have "sorted (map accessed (cache s))"
    using mono by (simp add: clock_monotone_def sorted_append)
  then have srt: "sorted (map accessed d)"
    unfolding d_def od_delitem_def by (rule sorted_filter)
  have lru: "\<forall>j<n. \<forall>e\<in>set (drop j d). accessed (d ! j) \<le> accessed e"
    using sorted_head_least [OF srt] nle by auto
  show ?thesis
    unfolding Let_def s_def [symmetric] k_def [symmetric] d_def [symmetric] n_def [symmetric]
    using step size lru by simp
qed

theorem update_sequence_lru_witness:
  "1 \<le> max_size (LRUInMemoryCache_init 2 None) \<and>
   list_all is_generation three_calls \<and>
   clock_monotone (LRUInMemoryCache_init 2 None) three_calls \<and>
   2 < length three_calls \<and>
   three_calls ! 2 = (''k3'', ''m'', Generation ''c'', 3) \<and>
   cache (snd (updates (LRUInMemoryCache_init 2 None) (take 2 three_calls))) =
     [((''k1'', ''m''), new_entry ''a'' 1), ((''k2'', ''m''), new_entry ''b'' 2)] \<and>
   evictions_needed (snd (updates (LRUInMemoryCache_init 2 None) (take 2 three_calls)))
     (''k3'', ''m'') = 1 \<and>
   cache (snd (updates (LRUInMemoryCache_init 2 None) (take (Suc 2) three_calls))) =
     [((''k2'', ''m''), new_entry ''b'' 2), ((''k3'', ''m''), new_entry ''c'' 3)]"
proof -
  let ?c = "LRUInMemoryCache_init 2 None"
  have h1: "1 \<le> max_size ?c"
    by (simp add: LRUInMemoryCache_init_def)
  have h2: "list_all is_generation three_calls"
    by (simp add: three_calls_def is_generation_def)
  have h3: "clock_monotone ?c three_calls"
    by (simp add: clock_monotone_def three_calls_def call_time_def LRUInMemoryCache_init_def)
  have h4: "2 < length three_calls"
    by (simp add: three_calls_def)
  have h5: "three_calls ! 2 = (''k3'', ''m'', Generation ''c'', 3)"
    by (simp add: three_calls_def)
  have s: "updates ?c (take 2 three_calls) =
      (Inr (), ?c\<lparr>cache := [((''k1'', ''m''), new_entry ''a'' 1),
                              ((''k2'', ''m''), new_entry ''b'' 2)]\<rparr>)"
    by (simp add: three_calls_def update_generation evictions_needed_def od_delitem_def
        generate_key_def LRUInMemoryCache_init_def)
  have n: "evictions_needed (snd (updates ?c (take 2 three_calls))) (''k3'', ''m'') = 1"
    unfolding s by (simp add: evictions_needed_def od_delitem_def LRUInMemoryCache_init_def)
  note r = update_sequence_lru [OF h1 h2 h3 h4 h5]
  have "cache (snd (updates ?c (take (Suc 2) three_calls))) =
      [((''k2'', ''m''), new_entry ''b'' 2), ((''k3'', ''m''), new_entry ''c'' 3)]"
    using r n unfolding Let_def s by (simp add: generate_key_def od_delitem_def)
  with h1 h2 h3 h4 h5 s n show ?thesis by simp
qed


text \<open>
  Claim C8.  For every state of the in-memory cache and every \<open>n\<close>, \<open>resize(n)\<close>
  returns without raising; a second \<open>resize(n)\<close> right after the first leaves the whole
  state (entries, bound and counters) as the first left it; and when \<open>n\<close> is at least
  the current number of entries nothing is evicted: only \<open>max_size\<close> changes.
\<close>

theorem resize_idempotent:
  "fst (resize c n) = Inr () \<and>
   resize (snd (resize c n)) n = resize c n \<and>
   (int (length (cache c)) \<le> n \<longrightarrow> snd (resize c n) = c\<lparr>max_size := max n 1\<rparr>)"
proof -
  let ?c1 = "c\<lparr>max_size := max n 1\<rparr>"
  let ?k = "nat (int (length (cache c)) - max n 1)"
  let ?c2 = "evicted ?c1 ?k"
  have r1: "resize c n = (Inr (), ?c2)" by (rule resize_eq)
  have upd: "?c2\<lparr>max_size := max n 1\<rparr> = ?c2"
    by (simp add: evicted_def)
  have "int (length (cache c)) - int ?k \<le> max n 1"
    by linarith
  then have k2: "nat (int (length (cache ?c2)) - max n 1) = 0"
    unfolding cache_evicted by simp
  have r2: "resize ?c2 n = (Inr (), ?c2)"
    unfolding resize_eq upd k2 by (simp add: evicted_0)
  have keep: "int (length (cache c)) \<le> n \<Longrightarrow> ?c2 = ?c1"
  proof -
    assume "int (length (cache c)) \<le> n"
    then have "?k = 0" by simp
    then show "?c2 = ?c1" by (simp add: evicted_0)
  qed
  show ?thesis
    using r1 r2 keep by simp
qed

theorem resize_idempotent_witness:
  "int (length (cache (LRUInMemoryCache_init 3 None))) \<le> 2 \<and>
   fst (resize (LRUInMemoryCache_init 3 None) 2) = Inr () \<and>
   resize (snd (resize (LRUInMemoryCache_init 3 None) 2)) 2 = resize (LRUInMemoryCache_init 3 None) 2 \<and>
   snd (resize (LRUInMemoryCache_init 3 None) 2) = (LRUInMemoryCache_init 3 None)\<lparr>max_size := max 2 1\<rparr>"
proof -
  have h: "int (length (cache (LRUInMemoryCache_init 3 None))) \<le> 2"
    by (simp add: LRUInMemoryCache_init_def)
  from resize_idempotent [of "LRUInMemoryCache_init 3 None" 2] h show ?thesis
    by blast
qed

text \<open>
  Claim C10.  In a state of the in-memory cache with at most \<open>max_size\<close> entries, an
  \<open>update\<close> under a key that is present evicts nothing: whatever the value, the
  counters are unchanged and the entries under the other keys are the same, in the same
  order; for a \<open>Generation\<close> the call returns and the new state is the old one with
  the key's entry deleted and the new entry appended at the most recently used end.
\<close>

theorem update_present_no_eviction:
  assumes "int (length (cache c)) \<le> max_size c"
    and "od_contains (cache c) (generate_key p l)"
  shows "stats (snd (update c p l v now)) = stats c \<and>
         od_delitem (cache (snd (update c p l v now))) (generate_key p l) =
           od_delitem (cache c) (generate_key p l) \<and>
         update c p l (Generation t) now =
           (Inr (), c\<lparr>cache := od_delitem (cache c) (generate_key p l) @
                               [(generate_key p l, new_entry t now)]\<rparr>)"
proof -
  let ?k = "generate_key p l"
  from assms(2) have "cache c \<noteq> []" by (auto simp: od_contains_def)
  with assms(1) have ms: "1 \<le> max_size c" by (cases "cache c") auto
  from assms(2) obtain x where x: "x \<in> set (cache c)" "fst x = ?k"
    by (auto simp: od_contains_def map_of_eq_None_iff)
  then have "length (od_delitem (cache c) ?k) < length (cache c)"
    unfolding od_delitem_def by (intro length_filter_less [of x]) simp_all
  with assms(1) have n0: "evictions_needed c ?k = 0"
    by (simp add: evictions_needed_def)
  have idem: "od_delitem (od_delitem (cache c) ?k) ?k = od_delitem (cache c) ?k"
    by (simp add: od_delitem_def)
  show ?thesis
    unfolding update_eq [OF ms] Let_def n0 evicted_0
    by (cases v) (simp_all add: idem, simp_all add: od_delitem_def)
qed

theorem update_present_no_eviction_witness:
  "int (length (cache one_entry_cache)) \<le> max_size one_entry_cache \<and>
   od_contains (cache one_entry_cache) (generate_key ''q'' ''m'') \<and>
   update one_entry_cache ''q'' ''m'' (Generation ''b'') 5 =
     (Inr (), one_entry_cache\<lparr>cache := [((''q'', ''m''), new_entry ''b'' 5)]\<rparr>)"
proof -
  have h1: "int (length (cache one_entry_cache)) \<le> max_size one_entry_cache"
    by (simp add: one_entry_cache_def)
  have h2: "od_contains (cache one_entry_cache) (generate_key ''q'' ''m'')"
    by (simp add: one_entry_cache_def od_contains_def generate_key_def)
  have d: "od_delitem (cache one_entry_cache) (generate_key ''q'' ''m'') = []"
    by (simp add: one_entry_cache_def od_delitem_def generate_key_def)
  note r = update_present_no_eviction [OF h1 h2, where t = "''b''" and now = 5]
  have "update one_entry_cache ''q'' ''m'' (Generation ''b'') 5 =
      (Inr (), one_entry_cache\<lparr>cache := [((''q'', ''m''), new_entry ''b'' 5)]\<rparr>)"
    using r [THEN conjunct2, THEN conjunct2] unfolding d by (simp add: generate_key_def)
  with h1 h2 show ?thesis by blast
qed

text \<open>
  Claim C5.  With \<open>ttl = T\<close>, a \<open>lookup\<close> of a key whose entry was last accessed
  more than \<open>T\<close> seconds before the clock reading of the expiry test returns
  \<open>None\<close>, adds one to \<open>expired\<close> and one to \<open>misses\<close>, changes no other counter
  and deletes the entry; a second \<open>lookup\<close> of the key, at any time, returns \<open>None\<close>
  and adds one to \<open>misses\<close> only.
\<close>

theorem lookup_expired:
  assumes "ttl c = Some T"
    and "od_getitem (cache c) (generate_key p l) = Some e"
    and "T * 1000000 < now - last_accessed e"
  shows "lookup c p l now now' =
           (None, c\<lparr>cache := od_delitem (cache c) (generate_key p l),
                     stats := (stats c)\<lparr>expired := expired (stats c) + 1,
                                        misses := misses (stats c) + 1\<rparr>\<rparr>) \<and>
         \<not> od_contains (cache (snd (lookup c p l now now'))) (generate_key p l) \<and>
         lookup (snd (lookup c p l now now')) p l later later' =
           (None, c\<lparr>cache := od_delitem (cache c) (generate_key p l),
                     stats := (stats c)\<lparr>expired := expired (stats c) + 1,
                                        misses := misses (stats c) + 2\<rparr>\<rparr>)"
proof -
  let ?k = "generate_key p l"
  have first: "lookup c p l now now' =
           (None, c\<lparr>cache := od_delitem (cache c) ?k,
                     stats := (stats c)\<lparr>expired := expired (stats c) + 1,
                                        misses := misses (stats c) + 1\<rparr>\<rparr>)"
    using assms by (simp add: lookup_def is_expired_def)
  have gone: "od_getitem (od_delitem (cache c) ?k) ?k = None"
    using od_contains_delitem [of "cache c" ?k] by (simp add: od_contains_def od_getitem_def)
  show ?thesis
    unfolding first using gone od_contains_delitem [of "cache c" ?k]
    by (simp add: lookup_def)
qed

theorem lookup_expired_witness:
  "ttl one_entry_cache = Some 1 \<and>
   od_getitem (cache one_entry_cache) (generate_key ''q'' ''m'') = Some (new_entry ''a'' 0) \<and>
   1 * 1000000 < 2000000 - last_accessed (new_entry ''a'' 0) \<and>
   lookup one_entry_cache ''q'' ''m'' 2000000 2000001 =
     (None, one_entry_cache\<lparr>cache := [],
              stats := \<lparr>hits = 0, misses = 1, evictions = 0, expired = 1\<rparr>\<rparr>) \<and>
   lookup (snd (lookup one_entry_cache ''q'' ''m'' 2000000 2000001)) ''q'' ''m'' 2000002 2000003 =
     (None, one_entry_cache\<lparr>cache := [],
              stats := \<lparr>hits = 0, misses = 2, evictions = 0, expired = 1\<rparr>\<rparr>)"
proof -
  have h1: "ttl one_entry_cache = Some 1"
    by (simp add: one_entry_cache_def)
  have h2: "od_getitem (cache one_entry_cache) (generate_key ''q'' ''m'') = Some (new_entry ''a'' 0)"
    by (simp add: one_entry_cache_def od_getitem_def generate_key_def)
  have h3: "1 * 1000000 < 2000000 - last_accessed (new_entry ''a'' 0)"
    by (simp add: new_entry_def)
  have d: "od_delitem (cache one_entry_cache) (generate_key ''q'' ''m'') = []"
    by (simp add: one_entry_cache_def od_delitem_def generate_key_def)
  have s: "stats one_entry_cache = \<lparr>hits = 0, misses = 0, evictions = 0, expired = 0\<rparr>"
    by (simp add: one_entry_cache_def reset_stats_def)
  note r = lookup_expired [OF h1 h2 h3, where now' = 2000001 and later = 2000002
      and later' = 2000003]
  have a: "lookup one_entry_cache ''q'' ''m'' 2000000 2000001 =
     (None, one_entry_cache\<lparr>cache := [],
              stats := \<lparr>hits = 0, misses = 1, evictions = 0, expired = 1\<rparr>\<rparr>)"
    using r [THEN conjunct1] unfolding d s by simp
  have b: "lookup (snd (lookup one_entry_cache ''q'' ''m'' 2000000 2000001)) ''q'' ''m''
       2000002 2000003 =
     (None, one_entry_cache\<lparr>cache := [],
              stats := \<lparr>hits = 0, misses = 2, evictions = 0, expired = 1\<rparr>\<rparr>)"
    using r [THEN conjunct2, THEN conjunct2] unfolding d s by simp
  from a b h1 h2 h3 show ?thesis by blast
qed

section \<open>Properties of the durable backend\<close>












lemma trigger_fire_length:
  assumes "0 \<le> b"
  shows "int (length (trigger_fire b rs)) \<le> b"
proof (cases "b < int (length rs)")
  case False
  then show ?thesis by (simp add: trigger_fire_def)
next
  case True
  define n where "n = nat (int (length rs) - b)"
  define srt where "srt = access_order rs"
  define keep where "keep = (\<lambda>r::row. row_id r \<notin> set (map row_id (take n srt)))"
  have fire: "trigger_fire b rs = filter keep rs"
    using True by (simp add: trigger_fire_def Let_def keep_def srt_def n_def)
  have "length (filter keep rs) = length (filter keep srt)"
    unfolding srt_def access_order_def by (simp add: filter_sort)
  also have "filter keep srt = filter keep (take n srt) @ filter keep (drop n srt)"
    by (metis append_take_drop_id filter_append)
  also have "filter keep (take n srt) = []"
    by (auto simp: keep_def filter_empty_conv)
  finally have "length (filter keep rs) = length (filter keep (drop n srt))"
    by simp
  also have "\<dots> \<le> length (drop n srt)"
    by (rule length_filter_le)
  also have "length (drop n srt) = length rs - n"
    by (simp add: srt_def access_order_def)
  finally show ?thesis
    unfolding fire using True assms by (simp add: n_def)
qed

text \<open>
  The capacity bound of the durable backend, on a store whose trigger carries the
  \<open>max_size\<close> of the running instance (as on a file the instance created itself):
  an \<open>update\<close> that completes leaves at most \<open>max_size\<close> rows, and keeps the
  trigger.
\<close>

theorem trigger_bound_holds:
  assumes "trigger_lru_eviction (conn s) = Some (sq_max_size s)" and "0 \<le> sq_max_size s"
    and "first_fault eng [0, 1] = None"
  shows "fst (sq_update s p l r now eng) = Inr () \<and>
         int (length (lru_cache (conn (snd (sq_update s p l r now eng))))) \<le> sq_max_size s \<and>
         sq_max_size (snd (sq_update s p l r now eng)) = sq_max_size s \<and>
         trigger_lru_eviction (conn (snd (sq_update s p l r now eng))) = Some (sq_max_size s)"
proof -
  from assms(3) have e: "eng 0 = None" "eng 1 = None"
    by (auto split: option.splits)
  have upd: "sq_update s p l r now eng = (Inr (), s\<lparr>conn := insert_or_replace (conn s) p l r now\<rparr>)"
    using e by (simp add: sq_update_def sq_update_body_def execute_def)
  show ?thesis
    unfolding upd using assms(1) trigger_fire_length [OF assms(2)]
    by (simp add: insert_or_replace_def Let_def)
qed

theorem trigger_bound_holds_witness:
  "trigger_lru_eviction (conn opened_with_2) = Some (sq_max_size opened_with_2) \<and>
   0 \<le> sq_max_size opened_with_2 \<and>
   first_fault no_faults [0, 1] = None \<and>
   int (length (lru_cache (conn (snd (sq_update opened_with_2 ''k1'' ''m'' ''a'' 1 no_faults)))))
     \<le> sq_max_size opened_with_2"
proof -
  have h1: "trigger_lru_eviction (conn opened_with_2) = Some (sq_max_size opened_with_2)"
    and h2: "0 \<le> sq_max_size opened_with_2"
    by (simp_all add: opened_with_2_def)
  have h3: "first_fault no_faults [0, 1] = None"
    by (simp add: no_faults_def)
  from trigger_bound_holds [OF h1 h2 h3, of "''k1''" "''m''" "''a''" 1] h1 h2 h3
  show ?thesis by blast
qed


lemmas sqlite_run =
  LRUSQLiteCache_init_def execute_def no_faults_def setup_database_def fresh_database_def
  sq_update_def sq_update_body_def insert_or_replace_def new_rowid_def matches_def
  trigger_fire_def access_order_def Let_def sq_lookup_def sq_lookup_body_def touch_rows_def

text \<open>
  Claim C2 fails on a store that is opened again with another \<open>max_size\<close>.  A first
  run with \<open>max_size = 2\<close> creates the trigger with the bound 2 and stores two rows.
  A second run opens the same file with \<open>max_size = 1\<close>: \<open>CREATE TRIGGER IF NOT
  EXISTS\<close> keeps the trigger of the first run, and after the next \<open>update\<close> the table
  holds two rows, more than \<open>max_size\<close>.
\<close>

theorem stale_trigger_exceeds_max_size:
  "LRUSQLiteCache_init None fresh_database 2 no_faults = Inr opened_with_2 \<and>
   conn (snd (sq_update (snd (sq_update opened_with_2 ''k1'' ''m'' ''a'' 1 no_faults))
                ''k2'' ''m'' ''b'' 2 no_faults)) = two_rows \<and>
   LRUSQLiteCache_init None two_rows 1 no_faults = Inr reopened_with_1 \<and>
   sq_max_size reopened_with_1 = 1 \<and>
   trigger_lru_eviction (conn reopened_with_1) = Some 2 \<and>
   fst (sq_update reopened_with_1 ''k3'' ''m'' ''c'' 3 no_faults) = Inr () \<and>
   map prompt (lru_cache (conn (snd (sq_update reopened_with_1 ''k3'' ''m'' ''c'' 3 no_faults))))
     = [''k2'', ''k3''] \<and>
   sq_max_size (snd (sq_update reopened_with_1 ''k3'' ''m'' ''c'' 3 no_faults))
     < int (length (lru_cache (conn (snd (sq_update reopened_with_1 ''k3'' ''m'' ''c'' 3 no_faults)))))"
proof -
  have a: "LRUSQLiteCache_init None fresh_database 2 no_faults = Inr opened_with_2"
    by (simp add: sqlite_run opened_with_2_def)
  have b: "conn (snd (sq_update (snd (sq_update opened_with_2 ''k1'' ''m'' ''a'' 1 no_faults))
                ''k2'' ''m'' ''b'' 2 no_faults)) = two_rows"
    by (simp add: sqlite_run opened_with_2_def two_rows_def)
  have c: "LRUSQLiteCache_init None two_rows 1 no_faults = Inr reopened_with_1"
    by (simp add: sqlite_run reopened_with_1_def two_rows_def)
  have d: "sq_update reopened_with_1 ''k3'' ''m'' ''c'' 3 no_faults =
     (Inr (), reopened_with_1\<lparr>conn := \<lparr>lru_cache =
        [\<lparr>row_id = 2, prompt = ''k2'', llm_string = ''m'', row_response = ''b'',
          row_created_at = 2, row_last_accessed = 2\<rparr>,
         \<lparr>row_id = 3, prompt = ''k3'', llm_string = ''m'', row_response = ''c'',
          row_created_at = 3, row_last_accessed = 3\<rparr>],
        trigger_lru_eviction = Some 2\<rparr>\<rparr>)"
    by (simp add: sqlite_run reopened_with_1_def two_rows_def)
  show ?thesis
    unfolding d using a b c by (simp add: reopened_with_1_def two_rows_def)
qed

section \<open>Read after write, on both backends\<close>

lemma map_of_snoc_absent:
  "\<not> od_contains d k \<Longrightarrow> map_of (d @ [(k, v)]) k = Some v"
  by (simp add: od_contains_def map_add_def)

lemma memory_read_after_write:
  assumes "1 \<le> max_size c"
    and "case ttl c of None \<Rightarrow> True | Some T \<Rightarrow> chk - now \<le> T * 1000000"
  shows "fst (update c p l (Generation t) now) = Inr () \<and>
         fst (lookup (snd (update c p l (Generation t) now)) p l chk tch) =
           Some (Generation t)"
proof -
  let ?k = "generate_key p l"
  let ?d = "drop (evictions_needed c ?k) (od_delitem (cache c) ?k)"
  have absent: "\<not> od_contains ?d ?k"
    by (simp add: od_contains_drop od_contains_delitem)
  have get: "od_getitem (?d @ [(?k, new_entry t now)]) ?k = Some (new_entry t now)"
    unfolding od_getitem_def by (rule map_of_snoc_absent [OF absent])
  show ?thesis
    unfolding update_generation [OF assms(1)]
    using assms(2) get
    by (simp add: lookup_def is_expired_def new_entry_def Let_def split: option.splits)
qed

lemma trigger_fire_subset: "set (trigger_fire b rs) \<subseteq> set rs"
  by (auto simp: trigger_fire_def Let_def)

lemma insert_or_replace_response:
  assumes "x \<in> set (lru_cache (insert_or_replace d p l r now))" and "matches p l x"
  shows "row_response x = r"
proof -
  let ?new = "\<lparr>row_id = new_rowid (lru_cache d), prompt = p, llm_string = l,
               row_response = r, row_created_at = now, row_last_accessed = now\<rparr>"
  let ?rs = "filter (\<lambda>x. \<not> matches p l x) (lru_cache d) @ [?new]"
  have "set (lru_cache (insert_or_replace d p l r now)) \<subseteq> set ?rs"
    using trigger_fire_subset [of _ ?rs]
    by (auto simp: insert_or_replace_def Let_def split: option.splits)
  with assms(1) have "x \<in> set ?rs" by blast
  with assms(2) have "x = ?new" by auto
  then show ?thesis by simp
qed

lemma insort_key_snoc_max:
  "f y \<le> f x \<Longrightarrow> insort_key f y (zs @ [x]) = insort_key f y zs @ [x]"
  by (induction zs) auto

lemma sort_key_snoc_max:
  "\<forall>y\<in>set xs. f y \<le> f x \<Longrightarrow> sort_key f (xs @ [x]) = sort_key f xs @ [x]"
  by (induction xs) (auto simp: insort_key_snoc_max)

lemma fold_max_ge: "a \<le> fold (\<lambda>x m. max (row_id x) m) rs (a::int)"
  by (induction rs arbitrary: a) (auto intro: order_trans [OF max.cobounded2])

lemma fold_max_ge_member:
  "x \<in> set rs \<Longrightarrow> row_id x \<le> fold (\<lambda>x m. max (row_id x) m) rs (a::int)"
proof (induction rs arbitrary: a)
  case Nil
  then show ?case by simp
next
  case (Cons y rs)
  show ?case
  proof (cases "x = y")
    case True
    have "row_id y \<le> max (row_id y) a" by simp
    also have "\<dots> \<le> fold (\<lambda>x m. max (row_id x) m) rs (max (row_id y) a)"
      by (rule fold_max_ge)
    finally show ?thesis using True by simp
  next
    case False
    with Cons.prems have "x \<in> set rs" by simp
    then show ?thesis using Cons.IH by simp
  qed
qed

lemma new_rowid_greater: "x \<in> set rs \<Longrightarrow> row_id x < new_rowid rs"
proof (cases rs)
  case Nil
  assume "x \<in> set rs"
  with Nil show ?thesis by simp
next
  case (Cons y rest)
  assume x: "x \<in> set rs"
  show ?thesis
  proof (cases "x = y")
    case True
    then show ?thesis
      using fold_max_ge [of "row_id y" rest] by (simp add: new_rowid_def Cons)
  next
    case False
    with x Cons have "x \<in> set rest" by simp
    then show ?thesis
      using fold_max_ge_member [of x rest "row_id y"] by (simp add: new_rowid_def Cons)
  qed
qed

lemma trigger_fire_keeps_newest:
  assumes "1 \<le> b"
    and "\<forall>x\<in>set kept. row_last_accessed x \<le> row_last_accessed new \<and> row_id x < row_id new"
  shows "new \<in> set (trigger_fire b (kept @ [new]))"
proof (cases "b < int (length (kept @ [new]))")
  case False
  then show ?thesis by (simp add: trigger_fire_def)
next
  case True
  let ?n = "nat (int (length (kept @ [new])) - b)"
  have srt: "access_order (kept @ [new]) = access_order kept @ [new]"
    unfolding access_order_def using assms(2)
    by (intro sort_key_snoc_max) (auto simp: less_eq_prod_def)
  have "?n \<le> length (access_order kept)"
    using assms(1) by (simp add: access_order_def)
  then have tk: "take ?n (access_order (kept @ [new])) = take ?n (access_order kept)"
    unfolding srt by simp
  have "set (take ?n (access_order kept)) \<subseteq> set kept"
    by (auto simp: access_order_def dest: in_set_takeD)
  with assms(2) have "row_id new \<notin> set (map row_id (take ?n (access_order kept)))"
    by force
  then show ?thesis
    using True unfolding trigger_fire_def Let_def tk by simp
qed

lemma written_row_survives:
  assumes "case trigger_lru_eviction d of None \<Rightarrow> True | Some b \<Rightarrow> 1 \<le> b"
    and "\<forall>x\<in>set (lru_cache d). row_last_accessed x \<le> now"
  shows "List.find (matches p l) (lru_cache (insert_or_replace d p l r now)) \<noteq> None"
proof -
  let ?new = "\<lparr>row_id = new_rowid (lru_cache d), prompt = p, llm_string = l,
               row_response = r, row_created_at = now, row_last_accessed = now\<rparr>"
  let ?kept = "filter (\<lambda>x. \<not> matches p l x) (lru_cache d)"
  have older: "\<forall>x\<in>set ?kept. row_last_accessed x \<le> row_last_accessed ?new \<and>
      row_id x < row_id ?new"
    using assms(2) new_rowid_greater by auto
  have "?new \<in> set (lru_cache (insert_or_replace d p l r now))"
  proof (cases "trigger_lru_eviction d")
    case None
    then show ?thesis by (simp add: insert_or_replace_def Let_def)
  next
    case (Some b)
    with assms(1) have "1 \<le> b" by simp
    from trigger_fire_keeps_newest [OF this older] Some
    show ?thesis by (simp add: insert_or_replace_def Let_def)
  qed
  moreover have "matches p l ?new" by (simp add: matches_def)
  ultimately show ?thesis by (auto simp: find_None_iff)
qed


lemma sqlite_read_after_write:
  assumes "first_fault eng [0, 1] = None" and "first_fault eng' [0, 1, 2] = None"
    and "case trigger_lru_eviction (conn s) of None \<Rightarrow> True | Some b \<Rightarrow> 1 \<le> b"
    and "\<forall>x\<in>set (lru_cache (conn s)). row_last_accessed x \<le> now"
  shows "fst (sq_update s p l r now eng) = Inr () \<and>
         fst (sq_lookup (snd (sq_update s p l r now eng)) p l now' eng') = Inr (Some r)"
proof -
  from assms(1) have e: "eng 0 = None" "eng 1 = None"
    by (auto split: option.splits)
  from assms(2) have e': "eng' 0 = None" "eng' 1 = None" "eng' 2 = None"
    by (auto split: option.splits)
  have upd: "sq_update s p l r now eng = (Inr (), s\<lparr>conn := insert_or_replace (conn s) p l r now\<rparr>)"
    using e by (simp add: sq_update_def sq_update_body_def execute_def)
  from written_row_survives [OF assms(3,4), of p l r] obtain x where
    x: "List.find (matches p l) (lru_cache (insert_or_replace (conn s) p l r now)) = Some x"
    by blast
  then have "x \<in> set (lru_cache (insert_or_replace (conn s) p l r now))" "matches p l x"
    by (auto simp: find_Some_iff)
  then have "row_response x = r" by (rule insert_or_replace_response)
  then show ?thesis
    unfolding upd using x e'
    by (simp add: sq_lookup_def sq_lookup_body_def execute_def)
qed

text \<open>
  Claim C6.  In-memory backend (\<open>max_size \<ge> 1\<close>): \<open>update(k, v)\<close> with a
  \<open>Generation\<close> returns, and a \<open>lookup(k)\<close> that follows returns a \<open>Generation\<close> of
  the same text, provided the entry has not expired when \<open>lookup\<close> tests it (no TTL,
  or at most TTL seconds between the two clock readings).  Durable backend: when no
  statement of the two calls fails, the bound of the trigger (if the trigger exists) is
  at least 1, as every constructor writes it, and no stored row has a \<open>last_accessed\<close>
  later than the time of the \<open>update\<close>, the \<open>update\<close> returns, its trigger does not evict
  the row it wrote, and the \<open>lookup(k)\<close> that follows returns the stored string.
\<close>

theorem read_after_write:
  "(1 \<le> max_size c \<longrightarrow>
    (case ttl c of None \<Rightarrow> True | Some T \<Rightarrow> chk - now \<le> T * 1000000) \<longrightarrow>
      fst (update c p l (Generation t) now) = Inr () \<and>
      fst (lookup (snd (update c p l (Generation t) now)) p l chk tch) =
        Some (Generation t)) \<and>
   (first_fault eng [0, 1] = None \<longrightarrow> first_fault eng' [0, 1, 2] = None \<longrightarrow>
    (case trigger_lru_eviction (conn s) of None \<Rightarrow> True | Some b \<Rightarrow> 1 \<le> b) \<longrightarrow>
    (\<forall>x\<in>set (lru_cache (conn s)). row_last_accessed x \<le> now') \<longrightarrow>
      fst (sq_update s p' l' r now' eng) = Inr () \<and>
      List.find (matches p' l') (lru_cache (conn (snd (sq_update s p' l' r now' eng)))) \<noteq> None \<and>
      fst (sq_lookup (snd (sq_update s p' l' r now' eng)) p' l' now'' eng') = Inr (Some r))"
proof -
  have present: "first_fault eng [0, 1] = None \<Longrightarrow>
      (case trigger_lru_eviction (conn s) of None \<Rightarrow> True | Some b \<Rightarrow> 1 \<le> b) \<Longrightarrow>
      (\<forall>x\<in>set (lru_cache (conn s)). row_last_accessed x \<le> now') \<Longrightarrow>
      List.find (matches p' l') (lru_cache (conn (snd (sq_update s p' l' r now' eng)))) \<noteq> None"
  proof -
    assume f: "first_fault eng [0, 1] = None"
      and b: "case trigger_lru_eviction (conn s) of None \<Rightarrow> True | Some b \<Rightarrow> 1 \<le> b"
      and t: "\<forall>x\<in>set (lru_cache (conn s)). row_last_accessed x \<le> now'"
    from f have e: "eng 0 = None" "eng 1 = None"
      by (auto split: option.splits)
    have "sq_update s p' l' r now' eng =
        (Inr (), s\<lparr>conn := insert_or_replace (conn s) p' l' r now'\<rparr>)"
      using e by (simp add: sq_update_def sq_update_body_def execute_def)
    then show ?thesis
      using written_row_survives [OF b t, of p' l' r] by simp
  qed
  show ?thesis
    using memory_read_after_write [of c chk now p l t tch]
      sqlite_read_after_write [of eng eng' s now' p' l' r now''] present
    by blast
qed

theorem read_after_write_witness:
  "1 \<le> max_size (LRUInMemoryCache_init 2 (Some 3600)) \<and>
   (case ttl (LRUInMemoryCache_init 2 (Some 3600)) of
      None \<Rightarrow> True | Some T \<Rightarrow> 1 - 0 \<le> T * 1000000) \<and>
   fst (lookup (snd (update (LRUInMemoryCache_init 2 (Some 3600)) ''k1'' ''m''
                       (Generation ''a'') 0)) ''k1'' ''m'' 1 2) = Some (Generation ''a'') \<and>
   first_fault no_faults [0, 1] = None \<and> first_fault no_faults [0, 1, 2] = None \<and>
   (case trigger_lru_eviction (conn reopened_with_1) of None \<Rightarrow> True | Some b \<Rightarrow> 1 \<le> b) \<and>
   list_all (\<lambda>x. row_last_accessed x \<le> 3) (lru_cache (conn reopened_with_1)) \<and>
   int (length (lru_cache (conn reopened_with_1))) = 2 \<and>
   trigger_lru_eviction (conn reopened_with_1) = Some 2 \<and>
   fst (sq_lookup (snd (sq_update reopened_with_1 ''k3'' ''m'' ''c'' 3 no_faults))
          ''k3'' ''m'' 4 no_faults) = Inr (Some ''c'')"
proof -
  have h1: "1 \<le> max_size (LRUInMemoryCache_init 2 (Some 3600))"
    and h2: "case ttl (LRUInMemoryCache_init 2 (Some 3600)) of
      None \<Rightarrow> True | Some T \<Rightarrow> 1 - 0 \<le> T * 1000000"
    by (simp_all add: LRUInMemoryCache_init_def)
  have h3: "first_fault no_faults [0, 1] = None"
    and h4: "first_fault no_faults [0, 1, 2] = None"
    by (simp_all add: no_faults_def)
  have h5: "case trigger_lru_eviction (conn reopened_with_1) of None \<Rightarrow> True | Some b \<Rightarrow> 1 \<le> b"
    and h6: "\<forall>x\<in>set (lru_cache (conn reopened_with_1)). row_last_accessed x \<le> 3"
    and h6': "list_all (\<lambda>x. row_last_accessed x \<le> 3) (lru_cache (conn reopened_with_1))"
    and h7: "int (length (lru_cache (conn reopened_with_1))) = 2"
    and h8: "trigger_lru_eviction (conn reopened_with_1) = Some 2"
    by (simp_all add: reopened_with_1_def two_rows_def)
  note r = read_after_write [where c = "LRUInMemoryCache_init 2 (Some 3600)" and chk = 1
      and now = 0 and p = "''k1''" and l = "''m''" and t = "''a''" and tch = 2
      and eng = no_faults and eng' = no_faults and p' = "''k3''" and l' = "''m''"
      and s = reopened_with_1 and r = "''c''" and now' = 3 and now'' = 4]
  from r h1 h2 h3 h4 h5 h6 h6' h7 h8 show ?thesis by blast
qed

section \<open>Properties of the manager\<close>

lemma clear_cache_returns:
  "\<exists>res m'. clear_cache cfg env m = Inr (res, m') \<and>
      clear_cache_type res = CACHE_TYPE cfg \<and> clear_message res \<noteq> No_message"
  by (auto simp: clear_cache_def clear_cache_body_def Let_def
      split: option.splits sum.splits backend.splits prod.splits)

lemma clear_cache_sqlite:
  assumes "CACHE_TYPE cfg = ''sqlite''"
  shows "clear_cache cfg env m =
     (if CACHE_PATH cfg \<in> files m
      then (case unlink_error env of
              None \<Rightarrow>
                Inr (\<lparr>success = True, clear_message = Sqlite_cleared,
                      clear_cache_type = ''sqlite''\<rparr>,
                     log INFO Sqlite_cleared (m\<lparr>files := files m - {CACHE_PATH cfg}\<rparr>))
            | Some e \<Rightarrow>
                Inr (\<lparr>success = False, clear_message = Clear_cache_failed (OSError e),
                      clear_cache_type = ''sqlite''\<rparr>,
                     log ERROR (Clear_cache_failed (OSError e)) m))
      else Inr (\<lparr>success = False, clear_message = Sqlite_file_missing,
                 clear_cache_type = ''sqlite''\<rparr>,
                log WARNING Sqlite_file_missing m))"
  using assms
  by (simp add: clear_cache_def clear_cache_body_def Let_def split: option.splits)

lemma clear_cache_memory:
  assumes "CACHE_TYPE cfg \<noteq> ''sqlite''" and "llm_cache m = Some (Memory c)"
  shows "clear_cache cfg env m =
     Inr (\<lparr>success = True, clear_message = Memory_cleared,
           clear_cache_type = CACHE_TYPE cfg\<rparr>,
          log INFO Memory_cleared (m\<lparr>llm_cache := Some (Memory (clear c))\<rparr>))"
  using assms by (simp add: clear_cache_def clear_cache_body_def Let_def)

text \<open>
  Claim C9.  \<open>clear_cache\<close> returns for every configuration, environment and state,
  and never raises; the result carries the configured cache type and a message.  For
  type \<open>sqlite\<close> it unlinks the file at \<open>CACHE_PATH\<close> when the file exists (a failing
  unlink and a missing file give \<open>success = False\<close>); for another type and an
  in-memory backend it calls the backend's \<open>clear\<close>.
\<close>

theorem clear_cache_never_raises:
  "(\<exists>res m'. clear_cache cfg env m = Inr (res, m') \<and>
      clear_cache_type res = CACHE_TYPE cfg \<and> clear_message res \<noteq> No_message) \<and>
   (CACHE_TYPE cfg = ''sqlite'' \<longrightarrow>
      clear_cache cfg env m =
        (if CACHE_PATH cfg \<in> files m
         then (case unlink_error env of
                 None \<Rightarrow>
                   Inr (\<lparr>success = True, clear_message = Sqlite_cleared,
                         clear_cache_type = ''sqlite''\<rparr>,
                        log INFO Sqlite_cleared (m\<lparr>files := files m - {CACHE_PATH cfg}\<rparr>))
               | Some e \<Rightarrow>
                   Inr (\<lparr>success = False, clear_message = Clear_cache_failed (OSError e),
                         clear_cache_type = ''sqlite''\<rparr>,
                        log ERROR (Clear_cache_failed (OSError e)) m))
         else Inr (\<lparr>success = False, clear_message = Sqlite_file_missing,
                    clear_cache_type = ''sqlite''\<rparr>,
                   log WARNING Sqlite_file_missing m))) \<and>
   (CACHE_TYPE cfg \<noteq> ''sqlite'' \<longrightarrow> (\<forall>c. llm_cache m = Some (Memory c) \<longrightarrow>
      clear_cache cfg env m =
        Inr (\<lparr>success = True, clear_message = Memory_cleared,
              clear_cache_type = CACHE_TYPE cfg\<rparr>,
             log INFO Memory_cleared (m\<lparr>llm_cache := Some (Memory (clear c))\<rparr>))))"
  using clear_cache_returns [of cfg env m] clear_cache_sqlite [of cfg env m]
    clear_cache_memory [of cfg m _ env]
  by blast

theorem clear_cache_never_raises_witness:
  "CACHE_TYPE default_config = ''sqlite'' \<and>
   clear_cache default_config quiet_environment
       (initialize default_config quiet_environment before_first_access) =
     Inr (\<lparr>success = True, clear_message = Sqlite_cleared, clear_cache_type = ''sqlite''\<rparr>,
          log INFO Sqlite_cleared
            ((initialize default_config quiet_environment before_first_access)\<lparr>files := {}\<rparr>)) \<and>
   CACHE_TYPE (default_config\<lparr>CACHE_TYPE := ''memory''\<rparr>) \<noteq> ''sqlite'' \<and>
   llm_cache memory_manager = Some (Memory (LRUInMemoryCache_init 1000 (Some 3600))) \<and>
   clear_cache (default_config\<lparr>CACHE_TYPE := ''memory''\<rparr>) quiet_environment memory_manager =
     Inr (\<lparr>success = True, clear_message = Memory_cleared, clear_cache_type = ''memory''\<rparr>,
          log INFO Memory_cleared
            (memory_manager\<lparr>llm_cache :=
               Some (Memory (clear (LRUInMemoryCache_init 1000 (Some 3600))))\<rparr>))"
proof -
  let ?m = "initialize default_config quiet_environment before_first_access"
  have t: "CACHE_TYPE default_config = ''sqlite''"
    by (simp add: default_config_def)
  have f: "files ?m = {CACHE_PATH default_config}"
    by (simp add: initialize_def init_cache_def setup_sqlite_cache_def default_config_def
        quiet_environment_def before_first_access_def LRUSQLiteCache_init_def execute_def
        no_faults_def setup_database_def log_def)
  have u: "unlink_error quiet_environment = None"
    by (simp add: quiet_environment_def)
  have a: "clear_cache default_config quiet_environment ?m =
     Inr (\<lparr>success = True, clear_message = Sqlite_cleared, clear_cache_type = ''sqlite''\<rparr>,
          log INFO Sqlite_cleared (?m\<lparr>files := {}\<rparr>))"
    using clear_cache_never_raises [of default_config quiet_environment ?m] t
    by (simp add: f u)
  have t': "CACHE_TYPE (default_config\<lparr>CACHE_TYPE := ''memory''\<rparr>) \<noteq> ''sqlite''"
    by simp
  have c: "llm_cache memory_manager = Some (Memory (LRUInMemoryCache_init 1000 (Some 3600)))"
    by (simp add: memory_manager_def initialize_def init_cache_def setup_memory_cache_def
        default_config_def log_def)
  have b: "clear_cache (default_config\<lparr>CACHE_TYPE := ''memory''\<rparr>) quiet_environment memory_manager =
     Inr (\<lparr>success = True, clear_message = Memory_cleared, clear_cache_type = ''memory''\<rparr>,
          log INFO Memory_cleared
            (memory_manager\<lparr>llm_cache :=
               Some (Memory (clear (LRUInMemoryCache_init 1000 (Some 3600))))\<rparr>))"
    using clear_cache_never_raises [of "default_config\<lparr>CACHE_TYPE := ''memory''\<rparr>"
        quiet_environment memory_manager] t' c
    by simp
  from t a t' c b show ?thesis by blast
qed


text \<open>
  Claim C3, as stated, fails: a configuration of type \<open>redis\<close> gets the in-memory
  backend, the manager counts as initialized, no error is recorded and the only log
  record is the success record at level INFO.
\<close>

theorem unknown_type_counterexample:
  "llm_cache (initialize (default_config\<lparr>CACHE_TYPE := ''redis''\<rparr>) quiet_environment
       before_first_access) = Some (Memory (LRUInMemoryCache_init 1000 (Some 3600))) \<and>
   cache_initialized (initialize (default_config\<lparr>CACHE_TYPE := ''redis''\<rparr>) quiet_environment
       before_first_access) \<and>
   last_error (initialize (default_config\<lparr>CACHE_TYPE := ''redis''\<rparr>) quiet_environment
       before_first_access) = None \<and>
   logger (initialize (default_config\<lparr>CACHE_TYPE := ''redis''\<rparr>) quiet_environment
       before_first_access) = [(INFO, Init_succeeded ''redis'' 1000 (Some 3600))]"
  by (simp add: initialize_def init_cache_def setup_memory_cache_def default_config_def
      before_first_access_def log_def)

text \<open>
  Claim C3, amended.  For every enabled configuration whose type is not \<open>sqlite\<close>,
  recognised or not, the first access installs the in-memory backend with the
  configured size and TTL, sets \<open>initialized\<close>, counts one attempt, records no error
  and logs one INFO record.
\<close>

theorem not_sqlite_installs_memory:
  assumes "ENABLE_CACHE cfg" and "CACHE_TYPE cfg \<noteq> ''sqlite''"
  shows "initialize cfg env w =
     w\<lparr>cache_initialized := True, init_attempts := 1, last_error := None,
       llm_cache := Some (Memory (LRUInMemoryCache_init (CACHE_MAX_SIZE cfg) (CACHE_TTL cfg))),
       logger := logger w @
         [(INFO, Init_succeeded (CACHE_TYPE cfg) (CACHE_MAX_SIZE cfg) (CACHE_TTL cfg))]\<rparr>"
  using assms
  by (simp add: initialize_def init_cache_def setup_memory_cache_def log_def)

theorem not_sqlite_installs_memory_witness:
  "ENABLE_CACHE (default_config\<lparr>CACHE_TYPE := ''redis''\<rparr>) \<and>
   CACHE_TYPE (default_config\<lparr>CACHE_TYPE := ''redis''\<rparr>) \<noteq> ''sqlite'' \<and>
   initialize (default_config\<lparr>CACHE_TYPE := ''redis''\<rparr>) quiet_environment before_first_access =
     \<lparr>cache_initialized = True, init_attempts = 1, last_error = None,
      llm_cache = Some (Memory (LRUInMemoryCache_init 1000 (Some 3600))),
      logger = [(INFO, Init_succeeded ''redis'' 1000 (Some 3600))], files = {}\<rparr>"
proof -
  have h1: "ENABLE_CACHE (default_config\<lparr>CACHE_TYPE := ''redis''\<rparr>)"
    and h2: "CACHE_TYPE (default_config\<lparr>CACHE_TYPE := ''redis''\<rparr>) \<noteq> ''sqlite''"
    by (simp_all add: default_config_def)
  from not_sqlite_installs_memory [OF h1 h2, of quiet_environment before_first_access] h1 h2
  show ?thesis by (simp add: default_config_def before_first_access_def)
qed








end
